theory Spec2Isabelle
  imports Main "HOL-Library.Word"
begin

section \<open>The alarm controller: two sketches, one embedding each\<close>

text \<open>
  The repository holds two Arduino sketches. Each consists of global variables, a
  \<^verbatim>\<open>setup()\<close> that runs once and a \<^verbatim>\<open>loop()\<close> that the runtime calls for ever.
  One call of \<^verbatim>\<open>loop()\<close> is modelled as a function from the state before the call to
  the state after it. What the call reads from the platform is passed in:
  \<^item> the serial receiver: \<open>None\<close> when \<^verbatim>\<open>Serial.available()\<close> is zero, \<open>Some c\<close> when
    it is not and \<^verbatim>\<open>Serial.read()\<close> returns the byte \<open>c\<close>;
  \<^item> the value of \<^verbatim>\<open>millis()\<close>, an \<^verbatim>\<open>unsigned long\<close>: a 32-bit word, whose
    subtraction wraps and whose order is the unsigned one.
  The state holds the global variables and the level last written to each output pin.
\<close>

type_synonym millis = "32 word"

subsection \<open>The elaborate sketch (LED every 100 ms, tone sequencer, green idle LED)\<close>

datatype ToneState = BEEP | PAUSE1 | BOO | PAUSE2

text \<open>The buzzer pin is driven by \<^verbatim>\<open>tone(pin, frequency)\<close> and \<^verbatim>\<open>noTone(pin)\<close>.\<close>

datatype buzzer_output = Silent | Tone nat

record alarm =
  isActive :: bool
  previousLedMillis :: millis
  ledState :: bool
  previousBuzzerMillis :: millis
  toneState :: ToneState
  pin_LED :: bool
  pin_LED_GREEN :: bool
  pin_BUZZER :: buzzer_output

definition ledInterval :: millis where
  "ledInterval = 100"

definition buzzerInterval :: millis where
  "buzzerInterval = 300"

definition buzzerSilence :: millis where
  "buzzerSilence = 200"

text \<open>
  The initialisers of the globals, then \<^verbatim>\<open>setup()\<close>: the three pins become outputs
  (low, silent) and the green LED is written HIGH.
\<close>

definition init :: alarm where
  "init = \<lparr> isActive = False, previousLedMillis = 0, ledState = False,
            previousBuzzerMillis = 0, toneState = PAUSE2,
            pin_LED = False, pin_LED_GREEN = True, pin_BUZZER = Silent \<rparr>"

text \<open>The first block of \<^verbatim>\<open>loop()\<close>: the serial command, if a byte is waiting.\<close>

definition serial_step :: "char option \<Rightarrow> alarm \<Rightarrow> alarm" where
  "serial_step rx s =
     (case rx of
        None \<Rightarrow> s
      | Some cmd \<Rightarrow>
          if cmd = CHR ''1'' then s\<lparr>isActive := True\<rparr>
          else if cmd = CHR ''0'' then
            s\<lparr>isActive := False, pin_LED := False, pin_BUZZER := Silent\<rparr>
          else s)"

text \<open>The \<^verbatim>\<open>switch (toneState)\<close>, entered after \<^verbatim>\<open>previousBuzzerMillis = currentMillis\<close>.\<close>

definition tone_switch :: "alarm \<Rightarrow> alarm" where
  "tone_switch s =
     (case toneState s of
        PAUSE1 \<Rightarrow>
          s\<lparr>pin_BUZZER := Silent, toneState := BOO,
            previousBuzzerMillis := previousBuzzerMillis s + buzzerSilence\<rparr>
      | PAUSE2 \<Rightarrow>
          s\<lparr>pin_BUZZER := Silent, toneState := BEEP,
            previousBuzzerMillis := previousBuzzerMillis s + buzzerSilence\<rparr>
      | BEEP \<Rightarrow> s\<lparr>pin_BUZZER := Tone 1000, toneState := PAUSE1\<rparr>
      | BOO \<Rightarrow> s\<lparr>pin_BUZZER := Tone 600, toneState := PAUSE2\<rparr>)"

text \<open>The blink of the main LED, inside \<^verbatim>\<open>if (isActive)\<close>.\<close>

definition led_blink :: "millis \<Rightarrow> alarm \<Rightarrow> alarm" where
  "led_blink currentMillis s =
     (if currentMillis - previousLedMillis s \<ge> ledInterval then
        s\<lparr>previousLedMillis := currentMillis, ledState := \<not> ledState s,
          pin_LED := \<not> ledState s\<rparr>
      else s)"

text \<open>The tone switching, inside \<^verbatim>\<open>if (isActive)\<close>.\<close>

definition buzzer_sequence :: "millis \<Rightarrow> alarm \<Rightarrow> alarm" where
  "buzzer_sequence currentMillis s =
     (if currentMillis - previousBuzzerMillis s \<ge> buzzerInterval then
        tone_switch (s\<lparr>previousBuzzerMillis := currentMillis\<rparr>)
      else s)"

text \<open>The second block of \<^verbatim>\<open>loop()\<close>: everything after the clock is read.\<close>

definition timing_step :: "millis \<Rightarrow> alarm \<Rightarrow> alarm" where
  "timing_step currentMillis s =
     (if isActive s then
        buzzer_sequence currentMillis
          (led_blink currentMillis (s\<lparr>pin_LED_GREEN := False\<rparr>))
      else s\<lparr>pin_LED_GREEN := True\<rparr>)"

definition loop :: "char option \<Rightarrow> millis \<Rightarrow> alarm \<Rightarrow> alarm" where
  "loop rx currentMillis s = timing_step currentMillis (serial_step rx s)"

text \<open>The scheduler: one call of \<^verbatim>\<open>loop()\<close> per entry, oldest first.\<close>

fun run :: "(char option \<times> millis) list \<Rightarrow> alarm \<Rightarrow> alarm" where
  "run [] s = s"
| "run ((rx, t) # rest) s = run rest (loop rx t s)"

subsection \<open>The simple sketch (\<^verbatim>\<open>main.ino\<close>: LED and buzzer toggle together every 250 ms)\<close>

record alarm_main =
  isActive_main :: bool
  previousMillis :: millis
  state_main :: bool
  pin_LED_main :: bool
  pin_BUZZER_main :: bool

text \<open>\<^verbatim>\<open>const int blinkInterval = 250\<close>; the comparison converts it to \<^verbatim>\<open>unsigned long\<close>.\<close>

definition blinkInterval :: int where
  "blinkInterval = 250"

definition init_main :: alarm_main where
  "init_main = \<lparr> isActive_main = False, previousMillis = 0, state_main = False,
                 pin_LED_main = False, pin_BUZZER_main = False \<rparr>"

definition serial_step_main :: "char option \<Rightarrow> alarm_main \<Rightarrow> alarm_main" where
  "serial_step_main rx s =
     (case rx of
        None \<Rightarrow> s
      | Some cmd \<Rightarrow>
          if cmd = CHR ''1'' then s\<lparr>isActive_main := True\<rparr>
          else if cmd = CHR ''0'' then
            s\<lparr>isActive_main := False, pin_LED_main := False, pin_BUZZER_main := False\<rparr>
          else s)"

text \<open>Here \<^verbatim>\<open>millis()\<close> is read only when the alarm is active.\<close>

definition timing_step_main :: "millis \<Rightarrow> alarm_main \<Rightarrow> alarm_main" where
  "timing_step_main currentMillis s =
     (if isActive_main s then
        (if currentMillis - previousMillis s \<ge> word_of_int blinkInterval then
           s\<lparr>previousMillis := currentMillis, state_main := \<not> state_main s,
             pin_LED_main := \<not> state_main s, pin_BUZZER_main := \<not> state_main s\<rparr>
         else s)
      else s)"

definition loop_main :: "char option \<Rightarrow> millis \<Rightarrow> alarm_main \<Rightarrow> alarm_main" where
  "loop_main rx currentMillis s = timing_step_main currentMillis (serial_step_main rx s)"

fun run_main :: "(char option \<times> millis) list \<Rightarrow> alarm_main \<Rightarrow> alarm_main" where
  "run_main [] s = s"
| "run_main ((rx, t) # rest) s = run_main rest (loop_main rx t s)"

subsection \<open>Schedules and orders used in the statements\<close>

text \<open>
  A schedule that calls \<^verbatim>\<open>loop()\<close> once per millisecond, at the clock values
  \<open>1, 2, \<dots>, n\<close> (taken modulo \<open>2 ^ 32\<close>, as the counter does), with \<open>rx t\<close>
  waiting at the serial receiver at time \<open>t\<close>.
\<close>

definition every_ms :: "(nat \<Rightarrow> char option) \<Rightarrow> nat \<Rightarrow> (char option \<times> millis) list" where
  "every_ms rx n = map (\<lambda>t. (rx t, of_nat t)) [1..<Suc n]"

text \<open>
  The cyclic order as the specification words it: BEEP, PAUSE_AFTER_BEEP (\<open>PAUSE1\<close>),
  BOO, PAUSE_AFTER_BOO (\<open>PAUSE2\<close>), and BEEP again. It is compared with what
  \<open>tone_switch\<close> does; the program does not use it.
\<close>

fun cycle_successor :: "ToneState \<Rightarrow> ToneState" where
  "cycle_successor BEEP = PAUSE1"
| "cycle_successor PAUSE1 = BOO"
| "cycle_successor BOO = PAUSE2"
| "cycle_successor PAUSE2 = BEEP"


section \<open>Supporting lemmas\<close>

lemmas alarm_defs = loop_def serial_step_def timing_step_def led_blink_def
  buzzer_sequence_def tone_switch_def ledInterval_def buzzerInterval_def buzzerSilence_def

lemmas alarm_main_defs = loop_main_def serial_step_main_def timing_step_main_def
  blinkInterval_def

lemma run_snoc: "run (xs @ [(rx, t)]) s = loop rx t (run xs s)"
  by (induction xs arbitrary: s) auto

lemma run_main_snoc: "run_main (xs @ [(rx, t)]) m = loop_main rx t (run_main xs m)"
  by (induction xs arbitrary: m) auto

lemma serial_step_keeps_active:
  assumes "isActive s" and "rx \<noteq> Some (CHR ''0'')"
  shows "serial_step rx s = s"
  using assms by (cases s) (simp add: serial_step_def split: option.split)

lemma serial_step_main_keeps_active:
  assumes "isActive_main m" and "rx \<noteq> Some (CHR ''0'')"
  shows "serial_step_main rx m = m"
  using assms by (cases m) (simp add: serial_step_main_def split: option.split)

lemma tone_switch_frame:
  "ledState (tone_switch s) = ledState s"
  "previousLedMillis (tone_switch s) = previousLedMillis s"
  "pin_LED (tone_switch s) = pin_LED s"
  "isActive (tone_switch s) = isActive s"
  "pin_LED_GREEN (tone_switch s) = pin_LED_GREEN s"
  by (simp_all add: tone_switch_def split: ToneState.split)

lemma buzzer_sequence_frame:
  "ledState (buzzer_sequence t s) = ledState s"
  "previousLedMillis (buzzer_sequence t s) = previousLedMillis s"
  "pin_LED (buzzer_sequence t s) = pin_LED s"
  "isActive (buzzer_sequence t s) = isActive s"
  "pin_LED_GREEN (buzzer_sequence t s) = pin_LED_GREEN s"
  by (simp_all add: buzzer_sequence_def tone_switch_frame)

lemma led_blink_frame:
  "toneState (led_blink t s) = toneState s"
  "previousBuzzerMillis (led_blink t s) = previousBuzzerMillis s"
  "pin_BUZZER (led_blink t s) = pin_BUZZER s"
  "isActive (led_blink t s) = isActive s"
  "pin_LED_GREEN (led_blink t s) = pin_LED_GREEN s"
  by (simp_all add: led_blink_def)

lemma serial_step_frame:
  "toneState (serial_step rx s) = toneState s"
  "previousBuzzerMillis (serial_step rx s) = previousBuzzerMillis s"
  "ledState (serial_step rx s) = ledState s"
  "previousLedMillis (serial_step rx s) = previousLedMillis s"
  "pin_LED_GREEN (serial_step rx s) = pin_LED_GREEN s"
  by (simp_all add: serial_step_def split: option.split)

lemma active_after_serial:
  "isActive (serial_step rx s) = (rx = Some (CHR ''1'') \<or> isActive s \<and> rx \<noteq> Some (CHR ''0''))"
  by (auto simp add: serial_step_def split: option.split)

lemma active_serial_pins:
  assumes "isActive (serial_step rx s)"
  shows "pin_LED (serial_step rx s) = pin_LED s" "pin_BUZZER (serial_step rx s) = pin_BUZZER s"
  using assms by (auto simp add: serial_step_def split: option.splits if_splits)

text \<open>The LED fields after one active iteration.\<close>

lemma loop_led_fields:
  assumes "isActive (serial_step rx s)"
  shows "ledState (loop rx now s)
           = (if ledInterval \<le> now - previousLedMillis s then \<not> ledState s else ledState s)"
    and "previousLedMillis (loop rx now s)
           = (if ledInterval \<le> now - previousLedMillis s then now else previousLedMillis s)"
    and "pin_LED (loop rx now s)
           = (if ledInterval \<le> now - previousLedMillis s then \<not> ledState s else pin_LED s)"
  using assms active_serial_pins(1) [OF assms]
  by (simp_all add: loop_def timing_step_def buzzer_sequence_frame led_blink_def
      serial_step_frame)

lemma active_serial_main_fields:
  assumes "isActive_main (serial_step_main rx m)"
  shows "pin_LED_main (serial_step_main rx m) = pin_LED_main m"
    and "pin_BUZZER_main (serial_step_main rx m) = pin_BUZZER_main m"
    and "state_main (serial_step_main rx m) = state_main m"
    and "previousMillis (serial_step_main rx m) = previousMillis m"
  using assms by (auto simp add: serial_step_main_def split: option.splits if_splits)

lemma loop_main_fields:
  assumes "isActive_main (serial_step_main rx m)"
  shows "state_main (loop_main rx now m)
           = (if 250 \<le> now - previousMillis m then \<not> state_main m else state_main m)"
    and "previousMillis (loop_main rx now m)
           = (if 250 \<le> now - previousMillis m then now else previousMillis m)"
    and "pin_LED_main (loop_main rx now m)
           = (if 250 \<le> now - previousMillis m then \<not> state_main m else pin_LED_main m)"
    and "pin_BUZZER_main (loop_main rx now m)
           = (if 250 \<le> now - previousMillis m then \<not> state_main m else pin_BUZZER_main m)"
  using assms active_serial_main_fields [OF assms]
  by (simp_all add: loop_main_def timing_step_main_def blinkInterval_def)

lemma loop_active:
  "isActive (loop rx now s) = isActive (serial_step rx s)"
  by (simp add: loop_def timing_step_def buzzer_sequence_frame led_blink_frame)

lemma loop_main_active:
  "isActive_main (loop_main rx now m) = isActive_main (serial_step_main rx m)"
  by (simp add: loop_main_def timing_step_main_def)

subsection \<open>The 32-bit clock\<close>

lemma unat_clock_diff:
  fixes t0 t1 :: nat
  assumes "t0 \<le> t1" and "t1 - t0 < 2 ^ 32"
  shows "unat ((of_nat t1 :: millis) - of_nat t0) = t1 - t0"
proof -
  have "(of_nat t1 :: millis) - of_nat t0 = of_nat (t1 - t0)"
    using assms(1) by simp
  then show ?thesis
    using assms(2) by (simp add: unat_of_nat)
qed

lemma every_ms_Suc: "every_ms rx (Suc n) = every_ms rx n @ [(rx (Suc n), of_nat (Suc n))]"
  by (simp add: every_ms_def)

lemma tick_elapsed:
  fixes n k :: nat
  assumes "0 < k" "k < 2 ^ 32"
  shows "((of_nat k :: millis) \<le> of_nat (Suc n) - of_nat (k * (n div k))) = (Suc n mod k = 0)"
proof -
  have le: "k * (n div k) \<le> Suc n"
    by (metis div_times_less_eq_dividend le_Suc_eq mult.commute)
  have d: "Suc n - k * (n div k) = Suc (n mod k)"
    by (metis Suc_diff_le div_times_less_eq_dividend minus_mult_div_eq_mod mult.commute)
  have "n mod k < k" using assms(1) by simp
  then have b: "Suc (n mod k) < 2 ^ 32" using assms(2) by linarith
  have "(of_nat (Suc n) :: millis) - of_nat (k * (n div k)) = of_nat (Suc (n mod k))"
    using le d by (metis of_nat_diff)
  moreover have "unat (of_nat (Suc (n mod k)) :: millis) = Suc (n mod k)"
    using b by (simp add: unat_of_nat del: of_nat_Suc)
  moreover have "unat (of_nat k :: millis) = k"
    using assms(2) by (simp add: unat_of_nat)
  ultimately have "((of_nat k :: millis) \<le> of_nat (Suc n) - of_nat (k * (n div k)))
      = (k \<le> Suc (n mod k))"
    by (simp add: word_le_nat_alt del: of_nat_Suc)
  also have "\<dots> = (Suc n mod k = 0)"
    using \<open>n mod k < k\<close> assms(1) by (metis Suc_leI le_antisym mod_Suc Zero_not_Suc)
  finally show ?thesis .
qed


text \<open>Polling every millisecond, the LED timestamp is the last multiple of 100.\<close>

lemma led_every_ms:
  assumes "isActive s" and "previousLedMillis s = 0" and "\<And>t. rx t \<noteq> Some (CHR ''0'')"
  shows "isActive (run (every_ms rx n) s)
    \<and> previousLedMillis (run (every_ms rx n) s) = of_nat (100 * (n div 100))
    \<and> ledState (run (every_ms rx n) s) = (ledState s \<noteq> odd (n div 100))
    \<and> pin_LED (run (every_ms rx n) s)
        = (if n < 100 then pin_LED s else ledState (run (every_ms rx n) s))"
proof (induction n)
  case 0
  show ?case using assms(1,2) by (simp add: every_ms_def)
next
  case (Suc n)
  let ?r = "run (every_ms rx n) s"
  define P :: millis where "P = of_nat (100 * (n div 100))"
  define T :: millis where "T = of_nat (Suc n)"
  define P' :: millis where "P' = of_nat (100 * (Suc n div 100))"
  let ?r' = "loop (rx (Suc n)) T ?r"
  note ih = Suc.IH [folded P_def]
  have act: "isActive (serial_step (rx (Suc n)) ?r)"
    using ih assms(3) by (simp add: active_after_serial)
  have fire: "(ledInterval \<le> T - P) = (Suc n mod 100 = 0)"
    unfolding T_def P_def using tick_elapsed [of 100 n]
    by (simp add: ledInterval_def del: of_nat_Suc)
  have P': "P' = (if Suc n mod 100 = 0 then T else P)"
  proof (cases "Suc n mod 100 = 0")
    case True
    then have "100 * (Suc n div 100) = Suc n"
      by (metis mod_0_imp_dvd dvd_mult_div_cancel)
    then show ?thesis
      using True by (simp only: P'_def T_def if_True refl)
  next
    case False
    then have "Suc n div 100 = n div 100"
      by (simp add: div_Suc)
    then show ?thesis
      using False by (simp only: P'_def P_def if_False refl)
  qed
  note L = loop_led_fields [OF act, of T]
  have r1: "isActive ?r'"
    using act by (simp add: loop_active)
  have r2: "previousLedMillis ?r' = P'"
    using L(2) ih fire P' by simp
  have r3: "ledState ?r' = (ledState s \<noteq> odd (Suc n div 100))"
    using L(1) ih fire by (auto simp add: div_Suc)
  have lt: "(Suc n < 100) = (n < 100)" if "Suc n mod 100 \<noteq> 0"
    using that by (auto simp add: mod_Suc split: if_splits)
  have ge: "\<not> Suc n < 100" if "Suc n mod 100 = 0"
    using that by (auto simp add: mod_Suc split: if_splits)
  have r4: "pin_LED ?r' = (if Suc n < 100 then pin_LED s else ledState ?r')"
  proof (cases "Suc n mod 100 = 0")
    case True
    then show ?thesis
      using L(1,3) fire ih ge by simp
  next
    case False
    then show ?thesis
      using L(1,3) fire ih lt [OF False] by simp
  qed
  show ?case
    unfolding every_ms_Suc run_snoc
    using r1 r2 r3 r4 unfolding T_def P'_def by blast
qed

lemma active_after_serial_main:
  "isActive_main (serial_step_main rx m)
     = (rx = Some (CHR ''1'') \<or> isActive_main m \<and> rx \<noteq> Some (CHR ''0''))"
  by (auto simp add: serial_step_main_def split: option.split)

text \<open>The same for the simple sketch, with multiples of 250.\<close>

lemma main_every_ms:
  assumes "isActive_main m" and "previousMillis m = 0" and "\<And>t. rx t \<noteq> Some (CHR ''0'')"
  shows "isActive_main (run_main (every_ms rx n) m)
    \<and> previousMillis (run_main (every_ms rx n) m) = of_nat (250 * (n div 250))
    \<and> state_main (run_main (every_ms rx n) m) = (state_main m \<noteq> odd (n div 250))
    \<and> pin_LED_main (run_main (every_ms rx n) m)
        = (if n < 250 then pin_LED_main m else state_main (run_main (every_ms rx n) m))
    \<and> pin_BUZZER_main (run_main (every_ms rx n) m)
        = (if n < 250 then pin_BUZZER_main m else state_main (run_main (every_ms rx n) m))"
proof (induction n)
  case 0
  show ?case using assms(1,2) by (simp add: every_ms_def)
next
  case (Suc n)
  let ?r = "run_main (every_ms rx n) m"
  define P :: millis where "P = of_nat (250 * (n div 250))"
  define T :: millis where "T = of_nat (Suc n)"
  define P' :: millis where "P' = of_nat (250 * (Suc n div 250))"
  let ?r' = "loop_main (rx (Suc n)) T ?r"
  note ih = Suc.IH [folded P_def]
  have act: "isActive_main (serial_step_main (rx (Suc n)) ?r)"
    using ih assms(3) by (simp add: active_after_serial_main)
  have fire: "(250 \<le> T - P) = (Suc n mod 250 = 0)"
    unfolding T_def P_def using tick_elapsed [of 250 n]
    by (simp del: of_nat_Suc)
  have P': "P' = (if Suc n mod 250 = 0 then T else P)"
  proof (cases "Suc n mod 250 = 0")
    case True
    then have "250 * (Suc n div 250) = Suc n"
      by (metis mod_0_imp_dvd dvd_mult_div_cancel)
    then show ?thesis
      using True by (simp only: P'_def T_def if_True refl)
  next
    case False
    then have "Suc n div 250 = n div 250"
      by (simp add: div_Suc)
    then show ?thesis
      using False by (simp only: P'_def P_def if_False refl)
  qed
  note L = loop_main_fields [OF act, of T]
  have r1: "isActive_main ?r'"
    using act by (simp add: loop_main_active)
  have r2: "previousMillis ?r' = P'"
    using L(2) ih fire P' by simp
  have r3: "state_main ?r' = (state_main m \<noteq> odd (Suc n div 250))"
    using L(1) ih fire by (auto simp add: div_Suc)
  have lt: "(Suc n < 250) = (n < 250)" if "Suc n mod 250 \<noteq> 0"
    using that by (auto simp add: mod_Suc split: if_splits)
  have ge: "\<not> Suc n < 250" if "Suc n mod 250 = 0"
    using that by (auto simp add: mod_Suc split: if_splits)
  have r4: "pin_LED_main ?r' = (if Suc n < 250 then pin_LED_main m else state_main ?r')"
  proof (cases "Suc n mod 250 = 0")
    case True
    then show ?thesis
      using L(1,3) fire ih ge by simp
  next
    case False
    then show ?thesis
      using L(1,3) fire ih lt [OF False] by simp
  qed
  have r5: "pin_BUZZER_main ?r' = (if Suc n < 250 then pin_BUZZER_main m else state_main ?r')"
  proof (cases "Suc n mod 250 = 0")
    case True
    then show ?thesis
      using L(1,4) fire ih ge by simp
  next
    case False
    then show ?thesis
      using L(1,4) fire ih lt [OF False] by simp
  qed
  show ?case
    unfolding every_ms_Suc run_main_snoc
    using r1 r2 r3 r4 r5 unfolding T_def P'_def by blast
qed

subsection \<open>The tone sequencer\<close>




lemma loop_tone_fields:
  assumes "isActive (serial_step rx s)" and "buzzerInterval \<le> now - previousBuzzerMillis s"
  shows "toneState (loop rx now s) = cycle_successor (toneState s)"
    and "pin_BUZZER (loop rx now s)
          = (case toneState s of BEEP \<Rightarrow> Tone 1000 | BOO \<Rightarrow> Tone 600
             | PAUSE1 \<Rightarrow> Silent | PAUSE2 \<Rightarrow> Silent)"
  using assms
  by (simp_all add: loop_def timing_step_def buzzer_sequence_def led_blink_frame
      serial_step_frame tone_switch_def split: ToneState.split)

lemma loop_tone_idle:
  assumes "\<not> (isActive (serial_step rx s) \<and> buzzerInterval \<le> now - previousBuzzerMillis s)"
  shows "toneState (loop rx now s) = toneState s"
    and "previousBuzzerMillis (loop rx now s) = previousBuzzerMillis s"
  using assms
  by (auto simp add: loop_def timing_step_def buzzer_sequence_def led_blink_frame
      serial_step_frame)

subsection \<open>Idle iterations and the \<open>'0'\<close> command\<close>

lemma inactive_loop:
  assumes "\<not> isActive (serial_step rx s)"
  shows "loop rx now s = (serial_step rx s)\<lparr>pin_LED_GREEN := True\<rparr>"
  using assms by (simp add: loop_def timing_step_def)

lemma inactive_loop_main:
  assumes "\<not> isActive_main (serial_step_main rx m)"
  shows "loop_main rx now m = serial_step_main rx m"
  using assms by (simp add: loop_main_def timing_step_main_def)

lemma loop_zero:
  "loop (Some (CHR ''0'')) now s
     = s\<lparr>isActive := False, pin_LED := False, pin_BUZZER := Silent, pin_LED_GREEN := True\<rparr>"
  by (simp add: loop_def serial_step_def timing_step_def)

lemma loop_main_zero:
  "loop_main (Some (CHR ''0'')) now m
     = m\<lparr>isActive_main := False, pin_LED_main := False, pin_BUZZER_main := False\<rparr>"
  by (simp add: loop_main_def serial_step_main_def timing_step_main_def)

lemma cycle_successor_moves: "cycle_successor x \<noteq> x"
  by (cases x) simp_all

subsection \<open>The elapsed-time check on true times\<close>

lemma clock_check:
  fixes t0 t1 k :: nat
  assumes "t0 \<le> t1" and "t1 - t0 < 2 ^ 32" and "k < 2 ^ 32"
  shows "((of_nat k :: millis) \<le> of_nat t1 - of_nat t0) = (k \<le> t1 - t0)"
proof -
  have "unat (of_nat k :: millis) = k"
    using assms(3) by (simp add: unat_of_nat)
  then show ?thesis
    using unat_clock_diff [OF assms(1,2)] by (simp add: word_le_nat_alt)
qed

section \<open>Deactivation\<close>

text \<open>
  Claim C1. In both sketches, a call of \<open>loop\<close> that reads the byte \<open>'0'\<close> leaves the
  activation flag false, the LED pin low and the buzzer silent (low), whatever the state
  before the call (so after every earlier input sequence) and whatever the clock shows:
  no timer is consulted on the way.
\<close>

theorem zero_forces_quiescent:
  "isActive (loop (Some (CHR ''0'')) now s) = False
   \<and> pin_LED (loop (Some (CHR ''0'')) now s) = False
   \<and> pin_BUZZER (loop (Some (CHR ''0'')) now s) = Silent
   \<and> isActive (run (ins @ [(Some (CHR ''0''), now)]) init) = False
   \<and> pin_LED (run (ins @ [(Some (CHR ''0''), now)]) init) = False
   \<and> pin_BUZZER (run (ins @ [(Some (CHR ''0''), now)]) init) = Silent
   \<and> isActive_main (loop_main (Some (CHR ''0'')) now m) = False
   \<and> pin_LED_main (loop_main (Some (CHR ''0'')) now m) = False
   \<and> pin_BUZZER_main (loop_main (Some (CHR ''0'')) now m) = False
   \<and> isActive_main (run_main (ins @ [(Some (CHR ''0''), now)]) init_main) = False
   \<and> pin_LED_main (run_main (ins @ [(Some (CHR ''0''), now)]) init_main) = False
   \<and> pin_BUZZER_main (run_main (ins @ [(Some (CHR ''0''), now)]) init_main) = False"
proof -
  have step: "loop (Some (CHR ''0'')) now s
      = s\<lparr>isActive := False, pin_LED := False, pin_BUZZER := Silent, pin_LED_GREEN := True\<rparr>"
    for s
    by (simp add: loop_def serial_step_def timing_step_def)
  have step_main: "loop_main (Some (CHR ''0'')) now m
      = m\<lparr>isActive_main := False, pin_LED_main := False, pin_BUZZER_main := False\<rparr>"
    for m
    by (simp add: loop_main_def serial_step_main_def timing_step_main_def)
  show ?thesis
    by (simp add: step step_main run_snoc run_main_snoc)
qed

section \<open>The tone sequencer and its output\<close>




text \<open>
  Claim C3: a pause is to last the base interval plus the extra silence. The \<open>PAUSE\<close>
  cases store \<^verbatim>\<open>currentMillis + buzzerSilence\<close>, a time 200 ms ahead of the clock. At
  the next call the unsigned difference \<^verbatim>\<open>currentMillis - previousBuzzerMillis\<close>
  wraps to almost \<open>2 ^ 32\<close>, so the check fires at once: after activation at 0 and a
  firing at 300 ms (silence, variable \<open>BEEP\<close>, timestamp 500), the call at 301 ms
  already starts the tone. The silence lasted 1 ms, not 500 ms.
\<close>

theorem pause_extension_fires_at_once:
  "toneState (run [(Some (CHR ''1''), 0), (None, 300)] init) = BEEP
   \<and> pin_BUZZER (run [(Some (CHR ''1''), 0), (None, 300)] init) = Silent
   \<and> previousBuzzerMillis (run [(Some (CHR ''1''), 0), (None, 300)] init) = 500
   \<and> toneState (run [(Some (CHR ''1''), 0), (None, 300), (None, 301)] init) = PAUSE1
   \<and> pin_BUZZER (run [(Some (CHR ''1''), 0), (None, 300), (None, 301)] init) = Tone 1000
   \<and> previousBuzzerMillis (run [(Some (CHR ''1''), 0), (None, 300), (None, 301)] init) = 301"
  by (simp add: alarm_defs init_def)

text \<open>
  Claim C5. The sequencer variable starts as \<open>PAUSE2\<close> (PAUSE_AFTER_BOO). The switch
  always moves it to its successor in the cycle BEEP, PAUSE_AFTER_BEEP, BOO,
  PAUSE_AFTER_BOO, BEEP; so a call of \<open>loop\<close> leaves the variable where it was or at
  that successor, and at the successor when the call is active and the check fires. No
  state is its own successor (none is terminal) and four firings come back to the start.
\<close>

theorem tone_cycle_order:
  "toneState init = PAUSE2
   \<and> toneState (tone_switch s) = cycle_successor (toneState s)
   \<and> (toneState (loop rx now s) = toneState s
       \<or> toneState (loop rx now s) = cycle_successor (toneState s))
   \<and> (isActive (serial_step rx s) \<and> buzzerInterval \<le> now - previousBuzzerMillis s \<longrightarrow>
         toneState (loop rx now s) = cycle_successor (toneState s))
   \<and> cycle_successor x \<noteq> x
   \<and> cycle_successor (cycle_successor (cycle_successor (cycle_successor x))) = x"
proof -
  have start: "toneState init = PAUSE2"
    by (simp add: init_def)
  have switch: "toneState (tone_switch s) = cycle_successor (toneState s)"
    by (simp add: tone_switch_def split: ToneState.split)
  have fired: "toneState (loop rx now s) = cycle_successor (toneState s)"
    if "isActive (serial_step rx s) \<and> buzzerInterval \<le> now - previousBuzzerMillis s"
    using that loop_tone_fields(1) by blast
  have step: "toneState (loop rx now s) = toneState s
       \<or> toneState (loop rx now s) = cycle_successor (toneState s)"
    using fired loop_tone_idle(1) by blast
  have round: "cycle_successor (cycle_successor (cycle_successor (cycle_successor x))) = x"
    by (cases x) simp_all
  show ?thesis
    using start switch step fired cycle_successor_moves round by blast
qed

text \<open>One firing out of each of the four states.\<close>

theorem tone_cycle_order_witness:
  "toneState (loop (Some (CHR ''1'')) 300 init) = BEEP
   \<and> toneState (loop None 300 (init\<lparr>isActive := True, toneState := BEEP\<rparr>)) = PAUSE1
   \<and> toneState (loop None 300 (init\<lparr>isActive := True, toneState := PAUSE1\<rparr>)) = BOO
   \<and> toneState (loop None 300 (init\<lparr>isActive := True, toneState := BOO\<rparr>)) = PAUSE2"
  using
    tone_cycle_order [where rx = "Some (CHR ''1'')" and now = 300 and s = init and x = BEEP]
    tone_cycle_order [where rx = None and now = 300
      and s = "init\<lparr>isActive := True, toneState := BEEP\<rparr>" and x = BEEP]
    tone_cycle_order [where rx = None and now = 300
      and s = "init\<lparr>isActive := True, toneState := PAUSE1\<rparr>" and x = BEEP]
    tone_cycle_order [where rx = None and now = 300
      and s = "init\<lparr>isActive := True, toneState := BOO\<rparr>" and x = BEEP]
  by (simp add: serial_step_def init_def buzzerInterval_def)

section \<open>The LED blink\<close>

text \<open>
  Claim C4. In a call of \<open>loop\<close> that is active after the serial block, the LED phase
  variable flips exactly when the unsigned difference between the clock and the last flip
  time is at least the interval (100 ms, and 250 ms in the simple sketch); the flip stores
  the clock as the new last flip time and writes the new phase to the LED pin; otherwise
  the variable, the timestamp and the pin keep their values. Polled once per millisecond
  from a timestamp of 0 with no \<open>'0'\<close> arriving, the last flip time after \<open>n\<close>
  milliseconds is the largest multiple of the interval up to \<open>n\<close> and the phase has
  flipped \<open>n div 100\<close> (\<open>n div 250\<close>) times: once per interval, also when the 32-bit
  clock wraps.
\<close>

theorem led_flips_once_per_interval:
  "(isActive (serial_step rx s) \<longrightarrow>
      ledState (loop rx now s)
        = (if ledInterval \<le> now - previousLedMillis s then \<not> ledState s else ledState s)
    \<and> previousLedMillis (loop rx now s)
        = (if ledInterval \<le> now - previousLedMillis s then now else previousLedMillis s)
    \<and> pin_LED (loop rx now s)
        = (if ledInterval \<le> now - previousLedMillis s then \<not> ledState s else pin_LED s))
   \<and> (isActive_main (serial_step_main rx m) \<longrightarrow>
      state_main (loop_main rx now m)
        = (if word_of_int blinkInterval \<le> now - previousMillis m
           then \<not> state_main m else state_main m)
    \<and> previousMillis (loop_main rx now m)
        = (if word_of_int blinkInterval \<le> now - previousMillis m
           then now else previousMillis m)
    \<and> pin_LED_main (loop_main rx now m)
        = (if word_of_int blinkInterval \<le> now - previousMillis m
           then \<not> state_main m else pin_LED_main m))
   \<and> (isActive s0 \<and> previousLedMillis s0 = 0 \<and> (\<forall>t. rxs t \<noteq> Some (CHR ''0'')) \<longrightarrow>
      previousLedMillis (run (every_ms rxs n) s0) = of_nat (100 * (n div 100))
    \<and> ledState (run (every_ms rxs n) s0) = (ledState s0 \<noteq> odd (n div 100))
    \<and> pin_LED (run (every_ms rxs n) s0)
        = (if n < 100 then pin_LED s0 else ledState (run (every_ms rxs n) s0)))
   \<and> (isActive_main m0 \<and> previousMillis m0 = 0 \<and> (\<forall>t. rxs t \<noteq> Some (CHR ''0'')) \<longrightarrow>
      previousMillis (run_main (every_ms rxs n) m0) = of_nat (250 * (n div 250))
    \<and> state_main (run_main (every_ms rxs n) m0) = (state_main m0 \<noteq> odd (n div 250))
    \<and> pin_LED_main (run_main (every_ms rxs n) m0)
        = (if n < 250 then pin_LED_main m0 else state_main (run_main (every_ms rxs n) m0)))"
proof (intro conjI impI)
  assume a: "isActive (serial_step rx s)"
  show "ledState (loop rx now s)
        = (if ledInterval \<le> now - previousLedMillis s then \<not> ledState s else ledState s)"
    by (rule loop_led_fields(1) [OF a])
  show "previousLedMillis (loop rx now s)
        = (if ledInterval \<le> now - previousLedMillis s then now else previousLedMillis s)"
    by (rule loop_led_fields(2) [OF a])
  show "pin_LED (loop rx now s)
        = (if ledInterval \<le> now - previousLedMillis s then \<not> ledState s else pin_LED s)"
    by (rule loop_led_fields(3) [OF a])
next
  assume a: "isActive_main (serial_step_main rx m)"
  show "state_main (loop_main rx now m)
        = (if word_of_int blinkInterval \<le> now - previousMillis m
           then \<not> state_main m else state_main m)"
    using loop_main_fields(1) [OF a] by (simp add: blinkInterval_def)
  show "previousMillis (loop_main rx now m)
        = (if word_of_int blinkInterval \<le> now - previousMillis m
           then now else previousMillis m)"
    using loop_main_fields(2) [OF a] by (simp add: blinkInterval_def)
  show "pin_LED_main (loop_main rx now m)
        = (if word_of_int blinkInterval \<le> now - previousMillis m
           then \<not> state_main m else pin_LED_main m)"
    using loop_main_fields(3) [OF a] by (simp add: blinkInterval_def)
next
  assume a: "isActive s0 \<and> previousLedMillis s0 = 0 \<and> (\<forall>t. rxs t \<noteq> Some (CHR ''0''))"
  then have h: "isActive s0" "previousLedMillis s0 = 0" "\<And>t. rxs t \<noteq> Some (CHR ''0'')"
    by simp_all
  note R = led_every_ms [where s = s0 and rx = rxs and n = n, OF h]
  show "previousLedMillis (run (every_ms rxs n) s0) = of_nat (100 * (n div 100))"
    using R by blast
  show "ledState (run (every_ms rxs n) s0) = (ledState s0 \<noteq> odd (n div 100))"
    using R by blast
  show "pin_LED (run (every_ms rxs n) s0)
        = (if n < 100 then pin_LED s0 else ledState (run (every_ms rxs n) s0))"
    using R by blast
next
  assume a: "isActive_main m0 \<and> previousMillis m0 = 0 \<and> (\<forall>t. rxs t \<noteq> Some (CHR ''0''))"
  then have h: "isActive_main m0" "previousMillis m0 = 0" "\<And>t. rxs t \<noteq> Some (CHR ''0'')"
    by simp_all
  note R = main_every_ms [where m = m0 and rx = rxs and n = n, OF h]
  show "previousMillis (run_main (every_ms rxs n) m0) = of_nat (250 * (n div 250))"
    using R by blast
  show "state_main (run_main (every_ms rxs n) m0) = (state_main m0 \<noteq> odd (n div 250))"
    using R by blast
  show "pin_LED_main (run_main (every_ms rxs n) m0)
        = (if n < 250 then pin_LED_main m0 else state_main (run_main (every_ms rxs n) m0))"
    using R by blast
qed

text \<open>An activation that flips at once, and 350 ms of polling, in both sketches.\<close>

theorem led_flips_once_per_interval_witness:
  "ledState (loop (Some (CHR ''1'')) 300 init) = True
   \<and> previousLedMillis (loop (Some (CHR ''1'')) 300 init) = 300
   \<and> pin_LED (loop (Some (CHR ''1'')) 300 init) = True
   \<and> state_main (loop_main (Some (CHR ''1'')) 300 init_main) = True
   \<and> previousMillis (loop_main (Some (CHR ''1'')) 300 init_main) = 300
   \<and> pin_LED_main (loop_main (Some (CHR ''1'')) 300 init_main) = True
   \<and> previousLedMillis (run (every_ms (\<lambda>t. None) 350) (init\<lparr>isActive := True\<rparr>)) = 300
   \<and> ledState (run (every_ms (\<lambda>t. None) 350) (init\<lparr>isActive := True\<rparr>)) = True
   \<and> pin_LED (run (every_ms (\<lambda>t. None) 350) (init\<lparr>isActive := True\<rparr>)) = True
   \<and> previousMillis (run_main (every_ms (\<lambda>t. None) 350) (init_main\<lparr>isActive_main := True\<rparr>)) = 250
   \<and> state_main (run_main (every_ms (\<lambda>t. None) 350) (init_main\<lparr>isActive_main := True\<rparr>)) = True
   \<and> pin_LED_main (run_main (every_ms (\<lambda>t. None) 350) (init_main\<lparr>isActive_main := True\<rparr>)) = True"
  using led_flips_once_per_interval [where rx = "Some (CHR ''1'')" and s = init and now = 300
      and m = init_main and rxs = "\<lambda>t. None" and n = 350
      and ?s0.0 = "init\<lparr>isActive := True\<rparr>" and ?m0.0 = "init_main\<lparr>isActive_main := True\<rparr>"]
  by (simp add: serial_step_def serial_step_main_def init_def init_main_def ledInterval_def
      blinkInterval_def)

section \<open>The elapsed-time check\<close>

text \<open>
  What the unsigned subtraction does give. Let the stored timestamp be the clock's reading
  at a true time \<open>t0\<close> and the current one its reading at \<open>t1\<close>, both taken modulo
  \<open>2 ^ 32\<close>, with \<open>t0 \<le> t1\<close> and \<open>t1 - t0\<close> below the modulus. Then the unsigned
  32-bit difference is \<open>t1 - t0\<close>, however often the counter wrapped, and each of the
  three comparisons (LED 100 ms, tone 300 ms, simple sketch 250 ms) passes exactly when
  \<open>t1 - t0\<close> has reached its threshold.
\<close>

lemma past_stamp_check_exact:
  assumes "t0 \<le> t1" and "t1 - t0 < 2 ^ 32"
  shows "unat ((of_nat t1 :: millis) - of_nat t0) = t1 - t0
    \<and> (ledInterval \<le> of_nat t1 - of_nat t0) = (100 \<le> t1 - t0)
    \<and> (buzzerInterval \<le> of_nat t1 - of_nat t0) = (300 \<le> t1 - t0)
    \<and> (word_of_int blinkInterval \<le> (of_nat t1 :: millis) - of_nat t0) = (250 \<le> t1 - t0)
    \<and> ledState (timing_step (of_nat t1) (s\<lparr>isActive := True, previousLedMillis := of_nat t0\<rparr>))
        = (if 100 \<le> t1 - t0 then \<not> ledState s else ledState s)
    \<and> (toneState (timing_step (of_nat t1)
           (s\<lparr>isActive := True, previousBuzzerMillis := of_nat t0\<rparr>)) \<noteq> toneState s)
        = (300 \<le> t1 - t0)
    \<and> state_main (timing_step_main (of_nat t1)
           (m\<lparr>isActive_main := True, previousMillis := of_nat t0\<rparr>))
        = (if 250 \<le> t1 - t0 then \<not> state_main m else state_main m)"
proof -
  have c100: "(ledInterval \<le> of_nat t1 - of_nat t0) = (100 \<le> t1 - t0)"
    using clock_check [OF assms, of 100] by (simp add: ledInterval_def)
  have c300: "(buzzerInterval \<le> of_nat t1 - of_nat t0) = (300 \<le> t1 - t0)"
    using clock_check [OF assms, of 300] by (simp add: buzzerInterval_def)
  have c250: "(word_of_int blinkInterval \<le> (of_nat t1 :: millis) - of_nat t0) = (250 \<le> t1 - t0)"
    using clock_check [OF assms, of 250] by (simp add: blinkInterval_def)
  have led: "ledState (timing_step (of_nat t1)
        (s\<lparr>isActive := True, previousLedMillis := of_nat t0\<rparr>))
        = (if 100 \<le> t1 - t0 then \<not> ledState s else ledState s)"
    using c100 by (simp add: timing_step_def buzzer_sequence_frame led_blink_def)
  have tone: "(toneState (timing_step (of_nat t1)
           (s\<lparr>isActive := True, previousBuzzerMillis := of_nat t0\<rparr>)) \<noteq> toneState s)
        = (300 \<le> t1 - t0)"
    using c300
    by (simp add: timing_step_def buzzer_sequence_def led_blink_frame tone_switch_def
        split: ToneState.split)
  have main: "state_main (timing_step_main (of_nat t1)
           (m\<lparr>isActive_main := True, previousMillis := of_nat t0\<rparr>))
        = (if 250 \<le> t1 - t0 then \<not> state_main m else state_main m)"
    using c250 by (simp add: timing_step_main_def)
  show ?thesis
    using unat_clock_diff [OF assms] c100 c300 c250 led tone main by blast
qed

text \<open>A stored time 50 ms before the counter wraps, read 160 ms later, 110 ms after it.\<close>

lemma past_stamp_check_exact_at_wrap:
  "(4294967246 :: nat) \<le> 4294967406
   \<and> (4294967406 :: nat) - 4294967246 < 2 ^ 32
   \<and> unat ((110 :: millis) - 4294967246) = 160
   \<and> ledInterval \<le> 110 - 4294967246
   \<and> \<not> buzzerInterval \<le> 110 - 4294967246
   \<and> ledState (timing_step 110 (init\<lparr>isActive := True, previousLedMillis := 4294967246\<rparr>))
   \<and> toneState (timing_step 110 (init\<lparr>isActive := True, previousBuzzerMillis := 4294967246\<rparr>))
       = PAUSE2
   \<and> \<not> state_main (timing_step_main 110
         (init_main\<lparr>isActive_main := True, previousMillis := 4294967246\<rparr>))"
proof -
  have now: "(of_nat 4294967406 :: millis) = 110"
    by simp
  have last: "(of_nat 4294967246 :: millis) = 4294967246"
    by simp
  show ?thesis
    using past_stamp_check_exact [where ?t0.0 = 4294967246 and ?t1.0 = 4294967406
        and s = init and m = init_main, unfolded now last]
    by (simp add: init_def init_main_def)
qed

text \<open>
  Claim C6: every elapsed-time check is to yield the true time since the last event and
  to gate on it. The tone check does not. After activation at 0 and the firing at 300 ms
  the \<open>PAUSE2\<close> case has stored 300 + 200 = 500, a value ahead of the clock. At the
  call at 301 ms, 1 ms after that event, the unsigned difference \<open>301 - 500\<close> is
  \<open>2 ^ 32 - 199\<close>, the comparison with 300 passes and the sequencer moves on. The LED
  check of the same call, whose timestamp 300 is a reading of the clock, computes 1 and
  does not fire.
\<close>

theorem buzzer_check_on_future_stamp:
  "previousBuzzerMillis (run [(Some (CHR ''1''), 0), (None, 300)] init) = 500
   \<and> unat (301 - previousBuzzerMillis (run [(Some (CHR ''1''), 0), (None, 300)] init))
       = 4294967097
   \<and> buzzerInterval
       \<le> 301 - previousBuzzerMillis (run [(Some (CHR ''1''), 0), (None, 300)] init)
   \<and> toneState (run [(Some (CHR ''1''), 0), (None, 300)] init) = BEEP
   \<and> toneState (loop None 301 (run [(Some (CHR ''1''), 0), (None, 300)] init)) = PAUSE1
   \<and> previousLedMillis (run [(Some (CHR ''1''), 0), (None, 300)] init) = 300
   \<and> unat (301 - previousLedMillis (run [(Some (CHR ''1''), 0), (None, 300)] init)) = 1
   \<and> ledState (loop None 301 (run [(Some (CHR ''1''), 0), (None, 300)] init))
       = ledState (run [(Some (CHR ''1''), 0), (None, 300)] init)"
proof -
  have r: "run [(Some (CHR ''1''), 0), (None, 300)] init
      = \<lparr> isActive = True, previousLedMillis = 300, ledState = True,
          previousBuzzerMillis = 500, toneState = BEEP,
          pin_LED = True, pin_LED_GREEN = False, pin_BUZZER = Silent \<rparr>"
    by (simp add: alarm_defs init_def)
  have d: "unat ((301 :: millis) - 500) = 4294967097"
    by simp
  have e: "\<not> (100 :: millis) \<le> 1"
    by (simp add: word_le_nat_alt)
  show ?thesis
    unfolding r using d e by (simp add: alarm_defs)
qed

section \<open>What deactivation keeps\<close>

text \<open>
  Claim C7. A call that reads \<open>'0'\<close> changes the activation flag and the outputs only:
  the sequencer variable, the LED phase variable and both timestamps keep their values
  (in the simple sketch, the phase and its timestamp). A call that is inactive after the
  serial block does no timing work: beyond the serial block it only writes the green LED
  high. A \<open>'1'\<close> after a \<open>'0'\<close> runs the timing block on the retained variables and
  timestamps. Since the timestamps were not reset, the first flip and the first tone
  transition can come in the very call that re-activates: after \<open>'1'\<close> at 0, a flip at
  100 ms and \<open>'0'\<close> at 150 ms, the \<open>'1'\<close> at 1000 ms flips the LED and moves the
  sequencer at once.
\<close>

theorem deactivation_keeps_phase:
  "loop (Some (CHR ''0'')) now s
     = s\<lparr>isActive := False, pin_LED := False, pin_BUZZER := Silent, pin_LED_GREEN := True\<rparr>
   \<and> toneState (loop (Some (CHR ''0'')) now s) = toneState s
   \<and> ledState (loop (Some (CHR ''0'')) now s) = ledState s
   \<and> previousLedMillis (loop (Some (CHR ''0'')) now s) = previousLedMillis s
   \<and> previousBuzzerMillis (loop (Some (CHR ''0'')) now s) = previousBuzzerMillis s
   \<and> loop_main (Some (CHR ''0'')) now m
     = m\<lparr>isActive_main := False, pin_LED_main := False, pin_BUZZER_main := False\<rparr>
   \<and> (\<not> isActive (serial_step rx s) \<longrightarrow>
         loop rx now s = (serial_step rx s)\<lparr>pin_LED_GREEN := True\<rparr>
       \<and> toneState (loop rx now s) = toneState s
       \<and> ledState (loop rx now s) = ledState s
       \<and> previousLedMillis (loop rx now s) = previousLedMillis s
       \<and> previousBuzzerMillis (loop rx now s) = previousBuzzerMillis s)
   \<and> (\<not> isActive_main (serial_step_main rx m) \<longrightarrow>
         loop_main rx now m = serial_step_main rx m
       \<and> state_main (loop_main rx now m) = state_main m
       \<and> previousMillis (loop_main rx now m) = previousMillis m)
   \<and> loop (Some (CHR ''1'')) later (loop (Some (CHR ''0'')) now s)
     = timing_step later
         (s\<lparr>isActive := True, pin_LED := False, pin_BUZZER := Silent, pin_LED_GREEN := True\<rparr>)
   \<and> ledState (run [(Some (CHR ''1''), 0), (None, 100), (Some (CHR ''0''), 150),
                     (Some (CHR ''1''), 1000)] init)
       \<noteq> ledState (run [(Some (CHR ''1''), 0), (None, 100), (Some (CHR ''0''), 150)] init)
   \<and> toneState (run [(Some (CHR ''1''), 0), (None, 100), (Some (CHR ''0''), 150),
                      (Some (CHR ''1''), 1000)] init)
       \<noteq> toneState (run [(Some (CHR ''1''), 0), (None, 100), (Some (CHR ''0''), 150)] init)"
proof -
  have idle: "loop rx now s = (serial_step rx s)\<lparr>pin_LED_GREEN := True\<rparr>
       \<and> toneState (loop rx now s) = toneState s
       \<and> ledState (loop rx now s) = ledState s
       \<and> previousLedMillis (loop rx now s) = previousLedMillis s
       \<and> previousBuzzerMillis (loop rx now s) = previousBuzzerMillis s"
    if "\<not> isActive (serial_step rx s)"
    using that by (simp add: inactive_loop serial_step_frame)
  have idle_main: "loop_main rx now m = serial_step_main rx m
       \<and> state_main (loop_main rx now m) = state_main m
       \<and> previousMillis (loop_main rx now m) = previousMillis m"
    if "\<not> isActive_main (serial_step_main rx m)"
    using that
    by (auto simp add: inactive_loop_main serial_step_main_def split: option.splits if_splits)
  have again: "loop (Some (CHR ''1'')) later (loop (Some (CHR ''0'')) now s)
     = timing_step later
         (s\<lparr>isActive := True, pin_LED := False, pin_BUZZER := Silent, pin_LED_GREEN := True\<rparr>)"
    by (cases s) (simp add: loop_def serial_step_def timing_step_def)
  have early: "ledState (run [(Some (CHR ''1''), 0), (None, 100), (Some (CHR ''0''), 150),
                     (Some (CHR ''1''), 1000)] init)
       \<noteq> ledState (run [(Some (CHR ''1''), 0), (None, 100), (Some (CHR ''0''), 150)] init)"
    by (simp add: alarm_defs init_def)
  have early_tone: "toneState (run [(Some (CHR ''1''), 0), (None, 100), (Some (CHR ''0''), 150),
                      (Some (CHR ''1''), 1000)] init)
       \<noteq> toneState (run [(Some (CHR ''1''), 0), (None, 100), (Some (CHR ''0''), 150)] init)"
    by (simp add: alarm_defs init_def)
  have off: "toneState (loop (Some (CHR ''0'')) now s) = toneState s"
    "ledState (loop (Some (CHR ''0'')) now s) = ledState s"
    "previousLedMillis (loop (Some (CHR ''0'')) now s) = previousLedMillis s"
    "previousBuzzerMillis (loop (Some (CHR ''0'')) now s) = previousBuzzerMillis s"
    by (simp_all add: loop_zero)
  show ?thesis
    using loop_zero [of now s] off loop_main_zero [of now m] idle idle_main again early
      early_tone
    by blast
qed

text \<open>An idle call from the initial state, and a \<open>'0'\<close> in the simple sketch.\<close>

theorem deactivation_keeps_phase_witness:
  "loop None 5 init = init
   \<and> toneState (loop None 5 init) = PAUSE2
   \<and> ledState (loop None 5 init) = False
   \<and> previousLedMillis (loop None 5 init) = 0
   \<and> previousBuzzerMillis (loop None 5 init) = 0
   \<and> loop_main (Some (CHR ''0'')) 5 (init_main\<lparr>state_main := True\<rparr>)
       = init_main\<lparr>state_main := True\<rparr>
   \<and> state_main (loop_main (Some (CHR ''0'')) 5 (init_main\<lparr>state_main := True\<rparr>)) = True
   \<and> previousMillis (loop_main (Some (CHR ''0'')) 5 (init_main\<lparr>state_main := True\<rparr>)) = 0"
  using
    deactivation_keeps_phase [where rx = None and now = 5 and s = init and m = init_main]
    deactivation_keeps_phase [where rx = "Some (CHR ''0'')" and now = 5 and s = init
      and m = "init_main\<lparr>state_main := True\<rparr>"]
  by (simp add: serial_step_def serial_step_main_def init_def init_main_def)



section \<open>Serial commands without effect\<close>

text \<open>
  Claim C8. A byte other than \<open>'0'\<close> and \<open>'1'\<close> leaves the whole state as it was when
  the serial block ends (flag, pins, phase variables, timestamps), and the call of
  \<open>loop\<close> that reads it ends in the same state as a call that found no byte, in both
  sketches.
\<close>

theorem other_bytes_ignored:
  assumes "c \<noteq> CHR ''0''" and "c \<noteq> CHR ''1''"
  shows "serial_step (Some c) s = s
    \<and> loop (Some c) now s = loop None now s
    \<and> serial_step_main (Some c) m = m
    \<and> loop_main (Some c) now m = loop_main None now m"
  using assms by (simp add: loop_def serial_step_def loop_main_def serial_step_main_def)

text \<open>The byte \<open>'x'\<close>, at a moment when both checks of the elaborate sketch fire.\<close>

theorem other_bytes_ignored_witness:
  "CHR ''x'' \<noteq> CHR ''0'' \<and> CHR ''x'' \<noteq> CHR ''1''
    \<and> serial_step (Some (CHR ''x'')) (init\<lparr>isActive := True\<rparr>) = init\<lparr>isActive := True\<rparr>
    \<and> loop (Some (CHR ''x'')) 300 (init\<lparr>isActive := True\<rparr>)
        = loop None 300 (init\<lparr>isActive := True\<rparr>)
    \<and> serial_step_main (Some (CHR ''x'')) init_main = init_main
    \<and> loop_main (Some (CHR ''x'')) 300 init_main = loop_main None 300 init_main"
  using other_bytes_ignored [where c = "CHR ''x''" and s = "init\<lparr>isActive := True\<rparr>"
      and now = 300 and m = init_main]
  by simp

text \<open>
  Claim C9. When the alarm is already active, a \<open>'1'\<close> leaves the whole state as it was
  when the serial block ends, and the call of \<open>loop\<close> that reads it ends in the same
  state as a call that found no byte, in both sketches: no phase, timestamp or output is
  reset.
\<close>

theorem one_while_active_idempotent:
  "(isActive s \<longrightarrow>
      serial_step (Some (CHR ''1'')) s = s
    \<and> loop (Some (CHR ''1'')) now s = loop None now s)
   \<and> (isActive_main m \<longrightarrow>
      serial_step_main (Some (CHR ''1'')) m = m
    \<and> loop_main (Some (CHR ''1'')) now m = loop_main None now m)"
proof -
  have a: "serial_step (Some (CHR ''1'')) s = s" if "isActive s"
    using that by (simp add: serial_step_keeps_active)
  have b: "serial_step_main (Some (CHR ''1'')) m = m" if "isActive_main m"
    using that by (simp add: serial_step_main_keeps_active)
  have none: "serial_step None s = s" "serial_step_main None m = m"
    by (simp_all add: serial_step_def serial_step_main_def)
  show ?thesis
    using a b none by (simp add: loop_def loop_main_def)
qed

text \<open>A second \<open>'1'\<close> after activation, at a time when the LED check fires.\<close>

theorem one_while_active_idempotent_witness:
  "isActive (loop (Some (CHR ''1'')) 0 init)
   \<and> serial_step (Some (CHR ''1'')) (loop (Some (CHR ''1'')) 0 init)
       = loop (Some (CHR ''1'')) 0 init
   \<and> loop (Some (CHR ''1'')) 100 (loop (Some (CHR ''1'')) 0 init)
       = loop None 100 (loop (Some (CHR ''1'')) 0 init)
   \<and> isActive_main (loop_main (Some (CHR ''1'')) 0 init_main)
   \<and> serial_step_main (Some (CHR ''1'')) (loop_main (Some (CHR ''1'')) 0 init_main)
       = loop_main (Some (CHR ''1'')) 0 init_main
   \<and> loop_main (Some (CHR ''1'')) 250 (loop_main (Some (CHR ''1'')) 0 init_main)
       = loop_main None 250 (loop_main (Some (CHR ''1'')) 0 init_main)"
proof -
  have a: "isActive (loop (Some (CHR ''1'')) 0 init)"
    by (simp add: alarm_defs init_def)
  have b: "isActive_main (loop_main (Some (CHR ''1'')) 0 init_main)"
    by (simp add: alarm_main_defs init_main_def)
  show ?thesis
    using a b
      one_while_active_idempotent [where s = "loop (Some (CHR ''1'')) 0 init" and now = 100
        and m = "loop_main (Some (CHR ''1'')) 0 init_main"]
      one_while_active_idempotent [where s = "loop (Some (CHR ''1'')) 0 init" and now = 250
        and m = "loop_main (Some (CHR ''1'')) 0 init_main"]
    by simp
qed

end
